theory Spec2Isabelle
  imports Main "HOL-Library.Sublist"
begin

section \<open>The setup script (src/setup.py)\<close>

text \<open>
  The script reads the optional file \<^verbatim>\<open>README\<close>, puts the directory \<^verbatim>\<open>python\<close> that
  lies beside it first on \<^verbatim>\<open>sys.path\<close>, imports \<^verbatim>\<open>__project__\<close> and \<^verbatim>\<open>__version__\<close>
  from the package \<^verbatim>\<open>PolytomySolver\<close> and calls \<^verbatim>\<open>setuptools.setup\<close>.  What the script
  reads from its surroundings is collected in a record; the value of the model is the
  keyword arguments handed to \<^verbatim>\<open>setuptools.setup\<close>, or the exception that ends the script
  before the call.
\<close>

datatype py_error =
    IOError string
  | ImportError string

text \<open>
  A name in the working directory is absent, a regular file with its contents, or a
  directory.  \<^verbatim>\<open>os.path.exists\<close> is true for the last two; \<^verbatim>\<open>open(...).read()\<close> returns the
  contents of a regular file and raises \<^verbatim>\<open>IOError\<close> otherwise (the interpreter is
  Python 2, as the requirement \<^verbatim>\<open>ete2\<close> shows: the contents are a byte string).
\<close>

datatype entry = File string | Directory

type_synonym filesystem = "string \<Rightarrow> entry option"

text \<open>A module is the table of its attributes; the values read here are strings.\<close>

type_synonym module = "string \<Rightarrow> string option"

record environment =
  fs :: filesystem
  script_file :: string
  realpath :: "string \<Rightarrow> string"
  sys_path :: "string list"
  packages_at :: "string \<Rightarrow> string \<Rightarrow> module option"
  found_packages :: "string list"

record setup_args =
  name :: string
  version :: string
  description :: string
  url :: string
  author :: string
  author_email :: string
  scripts :: "string list"
  packages :: "string list"
  entry_points :: "(string \<times> string list) list"
  long_description :: string
  license :: string
  classifiers :: "string list"
  install_requires :: "string list"

definition path_exists :: "filesystem \<Rightarrow> string \<Rightarrow> bool" where
  "path_exists f p = (case f p of None \<Rightarrow> False | Some _ \<Rightarrow> True)"

definition open_read :: "filesystem \<Rightarrow> string \<Rightarrow> py_error + string" where
  "open_read f p =
     (case f p of
        None \<Rightarrow> Inl (IOError p)
      | Some Directory \<Rightarrow> Inl (IOError p)
      | Some (File contents) \<Rightarrow> Inr contents)"

text \<open>Lines 13 to 16 of the script: the binding of \<^verbatim>\<open>README\<close>.\<close>

definition bind_README :: "filesystem \<Rightarrow> py_error + string" where
  "bind_README f =
     (if path_exists f ''README'' then open_read f ''README'' else Inr '''')"

text \<open>
  \<^verbatim>\<open>os.path.dirname\<close> and \<^verbatim>\<open>os.path.join\<close> for two components, as \<^verbatim>\<open>posixpath\<close> defines
  them: the directory part is the text up to the last slash, without trailing slashes
  unless it consists of slashes only; joining drops the first component when the second
  is absolute and puts one slash between them otherwise.
\<close>

definition slash :: char where
  "slash = CHR ''/''"

definition rstrip_slash :: "string \<Rightarrow> string" where
  "rstrip_slash s = rev (dropWhile (\<lambda>c. c = slash) (rev s))"

definition dirname :: "string \<Rightarrow> string" where
  "dirname p =
     (let head = rev (dropWhile (\<lambda>c. c \<noteq> slash) (rev p))
      in if head \<noteq> [] \<and> filter (\<lambda>c. c \<noteq> slash) head \<noteq> [] then rstrip_slash head else head)"

definition join :: "string \<Rightarrow> string \<Rightarrow> string" where
  "join a b =
     (if b \<noteq> [] \<and> hd b = slash then b
      else if a = [] \<or> last a = slash then a @ b
      else a @ [slash] @ b)"

text \<open>
  The import statement searches the directories of \<^verbatim>\<open>sys.path\<close> in order and takes the
  first that holds the package (the package has not been imported before: the script
  is the program's entry point).  A missing package or attribute raises
  \<^verbatim>\<open>ImportError\<close>.
\<close>

fun find_module :: "(string \<Rightarrow> string \<Rightarrow> module option) \<Rightarrow> string list \<Rightarrow> string \<Rightarrow> module option" where
  "find_module pk [] n = None"
| "find_module pk (d # ds) n =
     (case pk d n of Some m \<Rightarrow> Some m | None \<Rightarrow> find_module pk ds n)"

definition import_from ::
  "(string \<Rightarrow> string \<Rightarrow> module option) \<Rightarrow> string list \<Rightarrow> string \<Rightarrow> string \<Rightarrow> string
     \<Rightarrow> py_error + string \<times> string" where
  "import_from pk path n a b =
     (case find_module pk path n of
        None \<Rightarrow> Inl (ImportError n)
      | Some m \<Rightarrow>
          (case m a of
             None \<Rightarrow> Inl (ImportError a)
           | Some x \<Rightarrow>
               (case m b of
                  None \<Rightarrow> Inl (ImportError b)
                | Some y \<Rightarrow> Inr (x, y))))"

text \<open>Line 18: the directory put at position 0 of \<^verbatim>\<open>sys.path\<close>, and the path after it.\<close>

definition local_python_dir :: "environment \<Rightarrow> string" where
  "local_python_dir e = realpath e (join (dirname (script_file e)) ''python'')"

definition sys_path_after_insert :: "environment \<Rightarrow> string list" where
  "sys_path_after_insert e = local_python_dir e # sys_path e"

definition newline :: string where
  "newline = [CHR 0x0A]"

text \<open>The whole script, in the order of its statements.\<close>

definition setup_py :: "environment \<Rightarrow> py_error + setup_args" where
  "setup_py e =
     (case bind_README (fs e) of
        Inl err \<Rightarrow> Inl err
      | Inr README \<Rightarrow>
          (case import_from (packages_at e) (sys_path_after_insert e)
                  ''PolytomySolver'' ''__project__'' ''__version__'' of
             Inl err \<Rightarrow> Inl err
           | Inr (project, vers) \<Rightarrow>
               Inr \<lparr> name = project,
                     version = vers,
                     description = ''profileNJ correct polytomies in tree, using minimum reconciliation (with specietree) cost, and Neighbor-Joining algorithm for clustering'',
                     url = ''https://github.com/UdeM-LBIT/python-tree-processing'',
                     author = ''Emmanuel Noutahi'',
                     author_email = ''emmanuel.noutahi@hotmail.ca'',
                     scripts = [''bin/profileNJ''],
                     packages = found_packages e,
                     entry_points = [(''console_scripts'', [])],
                     long_description = README @ newline,
                     license = ''WTFPL'',
                     classifiers =
                       [''Development Status :: 5 - Production/Stable'',
                        ''Environment :: Console'',
                        ''Natural Language :: English'',
                        ''Intended Audience :: Developers'',
                        ''Intended Audience :: Education'',
                        ''Intended Audience :: Science/Research'',
                        ''License :: OSI Approved :: GNU General Public License (GPL)'',
                        ''Operating System :: POSIX'',
                        ''Programming Language :: Python''],
                     install_requires = [''ete2'', ''numpy'', ''lxml''] \<rparr>))"

text \<open>Two working directories used to run the script on concrete input.\<close>

definition local_module :: module where
  "local_module a =
     (if a = ''__project__'' then Some ''profileNJ''
      else if a = ''__version__'' then Some ''1.0''
      else None)"

definition installed_module :: module where
  "installed_module a =
     (if a = ''__project__'' then Some ''other''
      else if a = ''__version__'' then Some ''0.1''
      else None)"

definition checkout_without_README :: environment where
  "checkout_without_README =
     \<lparr> fs = (\<lambda>p. if p = ''python'' then Some Directory else None),
       script_file = ''setup.py'',
       realpath = (\<lambda>p. ''/home/user/profileNJ/'' @ p),
       sys_path = [''/usr/lib/python2.7/site-packages''],
       packages_at =
         (\<lambda>d n. if n = ''PolytomySolver'' \<and> d = ''/home/user/profileNJ/python''
                  then Some local_module
                else if n = ''PolytomySolver'' \<and> d = ''/usr/lib/python2.7/site-packages''
                  then Some installed_module
                else None),
       found_packages = [] \<rparr>"

definition checkout_with_README :: environment where
  "checkout_with_README =
     checkout_without_README
       \<lparr> fs := (\<lambda>p. if p = ''README'' then Some (File ''profileNJ readme'')
                     else if p = ''python'' then Some Directory else None) \<rparr>"

text \<open>
  The script started from the parent of the checkout, as \<^verbatim>\<open>python profileNJ/setup.py\<close>.  The
  working directory has a directory \<^verbatim>\<open>python\<close> of its own that holds another package of the
  same name.
\<close>

definition started_from_parent :: environment where
  "started_from_parent =
     \<lparr> fs = (\<lambda>p. if p = ''python'' \<or> p = ''profileNJ'' then Some Directory else None),
       script_file = ''profileNJ/setup.py'',
       realpath = (\<lambda>p. ''/home/user/'' @ p),
       sys_path = [''/usr/lib/python2.7/site-packages''],
       packages_at =
         (\<lambda>d n. if n = ''PolytomySolver'' \<and> d = ''/home/user/profileNJ/python''
                  then Some local_module
                else if n = ''PolytomySolver'' \<and> d = ''/home/user/python''
                  then Some installed_module
                else if n = ''PolytomySolver'' \<and> d = ''/usr/lib/python2.7/site-packages''
                  then Some installed_module
                else None),
       found_packages = [] \<rparr>"

section \<open>The tree model and the LCA mapper\<close>

text \<open>
  The package \<^verbatim>\<open>PolytomySolver\<close> that the script imports is not among the sources; the
  definitions of this section follow the specification's data model (section 3), the
  contract of its LCA Mapper (section 4.2) and what sections 4.3 and 4.5 say about the
  mapping while polytomies are resolved.
\<close>

text \<open>
  Modelled from the spec: the Node of the Tree Model, used for gene trees and species
  trees alike.  A node has an optional label and a list of children; a node without
  children is a leaf.  The identifier of a node is its position: the list of child
  indices on the way from the root, so that the parent of a node is the position without
  its last index, the root is the empty position, and ``ancestor of or equal to'' is
  the prefix order on positions.
\<close>

datatype tree = Node (label: "string option") (children: "tree list")

type_synonym node_id = "nat list"

text \<open>
  Modelled from the spec: access to the node at a position (the children of a node are
  reached by index), and the test that a position names a node of the tree.
\<close>

fun subtree_at :: "tree \<Rightarrow> node_id \<Rightarrow> tree option" where
  "subtree_at t [] = Some t"
| "subtree_at (Node l cs) (i # p) = (if i < length cs then subtree_at (cs ! i) p else None)"

definition is_node :: "tree \<Rightarrow> node_id \<Rightarrow> bool" where
  "is_node t p = (case subtree_at t p of None \<Rightarrow> False | Some _ \<Rightarrow> True)"

text \<open>
  Modelled from the spec: the error kinds of section 7 that abort a resolution.  A
  \<^verbatim>\<open>MappingError\<close> carries the identity of the offending leaf: its position in the gene
  tree and its label.
\<close>

datatype error =
    StructureError
  | MappingError node_id "string option"
  | DegenerateInputError

text \<open>
  Modelled from the spec: the leaves of a tree with their identities, in the order of
  the bottom-up pass (children from first to last).
\<close>

fun leaves_from :: "node_id \<Rightarrow> tree \<Rightarrow> (node_id \<times> string option) list"
  and leaves_of_children :: "node_id \<Rightarrow> nat \<Rightarrow> tree list \<Rightarrow> (node_id \<times> string option) list" where
  "leaves_from here (Node l cs) =
     (if cs = [] then [(here, l)] else leaves_of_children here 0 cs)"
| "leaves_of_children here i [] = []"
| "leaves_of_children here i (c # cs) =
     leaves_from (here @ [i]) c @ leaves_of_children here (Suc i) cs"

text \<open>Modelled from the spec: the leaves of a whole tree, positions counted from its root.\<close>

definition leaves :: "tree \<Rightarrow> (node_id \<times> string option) list" where
  "leaves t = leaves_from [] t"

text \<open>
  Modelled from the spec: the label match of a leaf.  The species tree is searched for
  a node that carries the wanted label (in pre-order, the first match is taken).
\<close>

fun find_label :: "string \<Rightarrow> tree \<Rightarrow> node_id option"
  and find_label_children :: "string \<Rightarrow> nat \<Rightarrow> tree list \<Rightarrow> node_id option" where
  "find_label s (Node l cs) =
     (if l = Some s then Some [] else find_label_children s 0 cs)"
| "find_label_children s i [] = None"
| "find_label_children s i (c # cs) =
     (case find_label s c of
        Some p \<Rightarrow> Some (i # p)
      | None \<Rightarrow> find_label_children s (Suc i) cs)"

text \<open>
  Modelled from the spec: the species annotation of a gene leaf is given by the
  leaf-label-to-species function \<open>sp\<close> of the input; the image of the leaf is the species
  node whose label matches it.  A leaf without a label has no annotation and no match.
\<close>

definition leaf_image :: "(string \<Rightarrow> string) \<Rightarrow> tree \<Rightarrow> string option \<Rightarrow> node_id option" where
  "leaf_image sp S l = (case l of None \<Rightarrow> None | Some n \<Rightarrow> find_label (sp n) S)"

text \<open>
  Modelled from the spec: what it means that a leaf's species label has a matching node
  in the species tree, stated on the labels that the nodes of the species tree carry
  and not on the search.
\<close>

fun labels_of :: "tree \<Rightarrow> string option list" where
  "labels_of (Node l cs) = l # concat (map labels_of cs)"

definition has_match :: "(string \<Rightarrow> string) \<Rightarrow> tree \<Rightarrow> string option \<Rightarrow> bool" where
  "has_match sp S l = (case l of None \<Rightarrow> False | Some n \<Rightarrow> Some (sp n) \<in> set (labels_of S))"

text \<open>
  Modelled from the spec: the lowest common ancestor of two species nodes by
  ancestor-depth comparison.  The depth of a node is the length of its position and its
  parent is the position without the last index: the deeper node is lifted to the depth
  of the other, then both are lifted together until they meet.
\<close>

function lca :: "node_id \<Rightarrow> node_id \<Rightarrow> node_id" where
  "lca p q =
     (if length q < length p then lca (butlast p) q
      else if length p < length q then lca p (butlast q)
      else if p = q then p
      else lca (butlast p) (butlast q))"
  by pat_completeness auto
termination
proof (relation "measure (\<lambda>(p, q). length p + length q)")
  fix p q :: node_id
  assume "\<not> length q < length p" "\<not> length p < length q" "p \<noteq> q"
  then have "p \<noteq> []"
    by auto
  then show "((butlast p, butlast q), (p, q)) \<in> measure (\<lambda>(p, q). length p + length q)"
    by (cases p rule: rev_cases) auto
qed auto

declare lca.simps [simp del]

text \<open>
  Modelled from the spec: the LCA of the images of all children of an internal node.
  An internal node has at least one child; the empty list is never passed.
\<close>

fun lca_list :: "node_id list \<Rightarrow> node_id" where
  "lca_list [] = []"
| "lca_list (x # xs) = foldl lca x xs"

text \<open>
  Modelled from the spec: the Mapping from gene nodes to species nodes, as a tree of
  the gene tree's shape that holds the image of every node.
\<close>

datatype mapping = Img (image: node_id) (below: "mapping list")

text \<open>Modelled from the spec: the image of the gene node at a position.\<close>

fun image_at :: "mapping \<Rightarrow> node_id \<Rightarrow> node_id option" where
  "image_at (Img s ms) [] = Some s"
| "image_at (Img s ms) (i # p) = (if i < length ms then image_at (ms ! i) p else None)"

text \<open>
  Modelled from the spec: the LCA Mapper.  One bottom-up pass over the gene tree: a leaf
  is mapped to the species node matching its species label, and the pass fails with
  \<^verbatim>\<open>MappingError\<close> naming the leaf when there is none; an internal node is mapped to the
  LCA of the images of all its children.  The first failure ends the pass.
\<close>

fun map_node :: "(string \<Rightarrow> string) \<Rightarrow> tree \<Rightarrow> node_id \<Rightarrow> tree \<Rightarrow> error + mapping"
  and map_children :: "(string \<Rightarrow> string) \<Rightarrow> tree \<Rightarrow> node_id \<Rightarrow> nat \<Rightarrow> tree list \<Rightarrow> error + mapping list" where
  "map_node sp S here (Node l cs) =
     (if cs = [] then
        (case leaf_image sp S l of
           None \<Rightarrow> Inl (MappingError here l)
         | Some s \<Rightarrow> Inr (Img s []))
      else
        (case map_children sp S here 0 cs of
           Inl e \<Rightarrow> Inl e
         | Inr ms \<Rightarrow> Inr (Img (lca_list (map image ms)) ms)))"
| "map_children sp S here i [] = Inr []"
| "map_children sp S here i (c # cs) =
     (case map_node sp S (here @ [i]) c of
        Inl e \<Rightarrow> Inl e
      | Inr m \<Rightarrow>
          (case map_children sp S here (Suc i) cs of
             Inl e \<Rightarrow> Inl e
           | Inr ms \<Rightarrow> Inr (m # ms)))"

text \<open>
  Modelled from the spec: the entry point of the LCA Mapper, given the leaf-label-to-species
  function, the species tree and the gene tree; the pass starts at the root.
\<close>

definition lca_map :: "(string \<Rightarrow> string) \<Rightarrow> tree \<Rightarrow> tree \<Rightarrow> error + mapping" where
  "lca_map sp S G = map_node sp S [] G"

text \<open>
  Modelled from the spec: the invariant of the Mapping between a node and its children.
  The image of the node is an ancestor of, or equal to, the image of each child, at
  every node.
\<close>

fun monotone :: "mapping \<Rightarrow> bool" where
  "monotone (Img s ms) = list_all (\<lambda>m. prefix s (image m) \<and> monotone m) ms"

subsection \<open>The mapping in the course of a resolution\<close>

text \<open>
  Modelled from the spec: a candidate refinement (section 3), a binary tree structure
  over the children of one polytomy.  Its leaves are the children, named by their index
  in the polytomy's list of children; its internal nodes are the binary nodes that the
  refinement introduces.
\<close>

datatype refinement = Child nat | Join refinement refinement

text \<open>Modelled from the spec: the children that a refinement attaches, from left to right.\<close>

fun children_of :: "refinement \<Rightarrow> nat list" where
  "children_of (Child i) = [i]"
| "children_of (Join a b) = children_of a @ children_of b"

text \<open>
  Modelled from the spec: a refinement of a polytomy with \<open>k\<close> children is over exactly
  these children, each attached once.
\<close>

definition is_refinement :: "nat \<Rightarrow> refinement \<Rightarrow> bool" where
  "is_refinement k r = (sort (children_of r) = [0..<k])"

text \<open>
  Modelled from the spec: the subtree that a refinement builds from the children \<open>cs\<close> of
  the polytomy.  The children are kept as they are; every internal node of the
  refinement is a new node without a label.  (The index of a child is in range for a
  refinement of the polytomy, which \<open>splice\<close> checks before it builds anything.)
\<close>

fun refine_tree :: "tree list \<Rightarrow> refinement \<Rightarrow> tree" where
  "refine_tree cs (Child i) = cs ! i"
| "refine_tree cs (Join a b) = Node None [refine_tree cs a, refine_tree cs b]"

text \<open>
  Modelled from the spec: the mapping of a refinement (section 4.3).  The memoized
  mappings \<open>ms\<close> of the children are reused; only the newly introduced internal nodes get
  a fresh image, the LCA of the images of their two children.
\<close>

fun refine_map :: "mapping list \<Rightarrow> refinement \<Rightarrow> mapping" where
  "refine_map ms (Child i) = ms ! i"
| "refine_map ms (Join a b) =
     (let x = refine_map ms a; y = refine_map ms b
      in Img (lca_list [image x, image y]) [x, y])"

text \<open>
  Modelled from the spec: splicing a refinement in place of the polytomy at a position
  of the gene tree (sections 3 and 4.1): the polytomous node and its child edges are
  replaced by the refinement, all other nodes stay.
\<close>

fun splice_tree :: "tree \<Rightarrow> node_id \<Rightarrow> refinement \<Rightarrow> tree" where
  "splice_tree (Node l cs) [] r = refine_tree cs r"
| "splice_tree (Node l cs) (i # p) r = Node l (cs[i := splice_tree (cs ! i) p r])"

text \<open>
  Modelled from the spec: the mapping after the splice (section 4.5).  Below the
  polytomy and beside the way to it the memoized images are kept; the refinement is
  mapped by \<open>refine_map\<close>; the updated information is propagated upward: every node on the
  way from the polytomy to the root gets the LCA of the images of its children anew.
\<close>

fun splice_map :: "mapping \<Rightarrow> node_id \<Rightarrow> refinement \<Rightarrow> mapping" where
  "splice_map (Img s ms) [] r = refine_map ms r"
| "splice_map (Img s ms) (i # p) r =
     (let ms' = ms[i := splice_map (ms ! i) p r]
      in Img (lca_list (map image ms')) ms')"

text \<open>
  Modelled from the spec: one step of a resolution, on the gene tree and the mapping in
  use.  The position must name a polytomy (a node with more than two children,
  otherwise \<^verbatim>\<open>DegenerateInputError\<close>) and the candidate must be a refinement of it
  (otherwise \<^verbatim>\<open>StructureError\<close>).  Which polytomy is taken next and which candidate is
  chosen for it (by cost, then by the tie breaker) is left open: the step is defined
  for every choice.
\<close>

definition splice :: "tree \<times> mapping \<Rightarrow> node_id \<times> refinement \<Rightarrow> error + tree \<times> mapping" where
  "splice st step =
     (case subtree_at (fst st) (fst step) of
        None \<Rightarrow> Inl StructureError
      | Some n \<Rightarrow>
          if length (children n) \<le> 2 then Inl DegenerateInputError
          else if \<not> is_refinement (length (children n)) (snd step) then Inl StructureError
          else Inr (splice_tree (fst st) (fst step) (snd step),
                    splice_map (snd st) (fst step) (snd step)))"

text \<open>
  Modelled from the spec: a resolution in progress.  It starts from the gene tree with
  the mapping that the LCA Mapper returns for it and performs splices one after the
  other; the first error aborts it.  Every gene tree and mapping that the resolver
  works with, a tentative candidate put in place as well as a chosen one, is the result
  of such a sequence.
\<close>

fun resolution_steps :: "tree \<times> mapping \<Rightarrow> (node_id \<times> refinement) list \<Rightarrow> error + tree \<times> mapping" where
  "resolution_steps st [] = Inr st"
| "resolution_steps st (step # steps) =
     (case splice st step of
        Inl e \<Rightarrow> Inl e
      | Inr st' \<Rightarrow> resolution_steps st' steps)"

definition resolution ::
  "(string \<Rightarrow> string) \<Rightarrow> tree \<Rightarrow> tree \<Rightarrow> (node_id \<times> refinement) list \<Rightarrow> error + tree \<times> mapping" where
  "resolution sp S G steps =
     (case lca_map sp S G of
        Inl e \<Rightarrow> Inl e
      | Inr m \<Rightarrow> resolution_steps (G, m) steps)"

text \<open>
  The species tree \<^verbatim>\<open>((A,B),(C,D))\<close> and the gene tree \<^verbatim>\<open>((A,B,C),D)\<close> of the specification's
  example, each gene leaf named after its species followed by a copy number; the
  refinement \<^verbatim>\<open>(((A,B),C),D)\<close> of that gene tree; a gene tree with leaves of species that
  the species tree does not have.
\<close>

definition Leaf :: "string \<Rightarrow> tree" where
  "Leaf n = Node (Some n) []"

definition species_ABCD :: tree where
  "species_ABCD =
     Node None [Node None [Leaf ''A'', Leaf ''B''], Node None [Leaf ''C'', Leaf ''D'']]"

definition gene_ABCD :: tree where
  "gene_ABCD =
     Node None [Node None [Leaf ''A_1'', Leaf ''B_1'', Leaf ''C_1''], Leaf ''D_1'']"

definition gene_resolved :: tree where
  "gene_resolved =
     Node None [Node None [Node None [Leaf ''A_1'', Leaf ''B_1''], Leaf ''C_1''], Leaf ''D_1'']"

definition gene_with_stranger :: tree where
  "gene_with_stranger =
     Node None [Node None [Leaf ''A_1'', Leaf ''E_1'', Leaf ''C_1''], Leaf ''F_1'']"

definition species_of_name :: "string \<Rightarrow> string" where
  "species_of_name n = takeWhile (\<lambda>c. c \<noteq> CHR ''_'') n"

section \<open>Properties of the setup script\<close>

lemma bind_README_absent: "f ''README'' = None \<Longrightarrow> bind_README f = Inr ''''"
  by (simp add: bind_README_def path_exists_def)

lemma bind_README_file: "f ''README'' = Some (File c) \<Longrightarrow> bind_README f = Inr c"
  by (simp add: bind_README_def path_exists_def open_read_def)

lemma setup_py_unfold:
  assumes "bind_README (fs e) = Inr r"
    and "import_from (packages_at e) (sys_path_after_insert e)
           ''PolytomySolver'' ''__project__'' ''__version__'' = Inr (p, v)"
  shows "\<exists>a. setup_py e = Inr a \<and> name a = p \<and> version a = v \<and> long_description a = r @ newline"
  using assms by (simp add: setup_py_def)

lemma setup_py_README_directory:
  "fs e ''README'' = Some Directory \<Longrightarrow> setup_py e = Inl (IOError ''README'')"
  by (simp add: setup_py_def bind_README_def path_exists_def open_read_def)

lemma setup_py_IOError:
  assumes "setup_py e = Inl (IOError x)"
  shows "bind_README (fs e) = Inl (IOError x)"
  using assms
  by (auto simp: setup_py_def import_from_def split: sum.splits option.splits)

text \<open>
  C9.  In a working directory with no entry named \<^verbatim>\<open>README\<close> the binding of \<^verbatim>\<open>README\<close>
  does not raise: it yields the empty string, and the script never ends with an
  \<^verbatim>\<open>IOError\<close>.  Once the import of the package succeeds, \<^verbatim>\<open>setuptools.setup\<close> is called
  and its \<^verbatim>\<open>long_description\<close> is the one-character string holding a line feed.  When
  \<^verbatim>\<open>README\<close> is a file with contents \<open>c\<close>, the \<^verbatim>\<open>long_description\<close> is \<open>c\<close> followed by a
  line feed.
\<close>

theorem setup_py_long_description:
  "(fs e ''README'' = None \<longrightarrow>
      bind_README (fs e) = Inr '''' \<and> (\<forall>x. setup_py e \<noteq> Inl (IOError x)))
   \<and> (fs e ''README'' = None \<and>
        import_from (packages_at e) (sys_path_after_insert e)
          ''PolytomySolver'' ''__project__'' ''__version__'' = Inr pv \<longrightarrow>
        (\<exists>a. setup_py e = Inr a \<and> long_description a = [CHR 0x0A]))
   \<and> (fs e ''README'' = Some (File c) \<and>
        import_from (packages_at e) (sys_path_after_insert e)
          ''PolytomySolver'' ''__project__'' ''__version__'' = Inr pv \<longrightarrow>
        (\<exists>a. setup_py e = Inr a \<and> long_description a = c @ [CHR 0x0A]))"
proof (intro conjI impI allI)
  assume absent: "fs e ''README'' = None"
  then show "bind_README (fs e) = Inr ''''"
    by (rule bind_README_absent)
  fix x
  show "setup_py e \<noteq> Inl (IOError x)"
  proof
    assume "setup_py e = Inl (IOError x)"
    then have "bind_README (fs e) = Inl (IOError x)"
      by (rule setup_py_IOError)
    with absent show False
      by (simp add: bind_README_absent)
  qed
next
  assume h: "fs e ''README'' = None \<and>
    import_from (packages_at e) (sys_path_after_insert e)
      ''PolytomySolver'' ''__project__'' ''__version__'' = Inr pv"
  obtain p v where pv: "pv = (p, v)"
    by (cases pv)
  from h have "bind_README (fs e) = Inr ''''"
    by (simp add: bind_README_absent)
  with h pv show "\<exists>a. setup_py e = Inr a \<and> long_description a = [CHR 0x0A]"
    using setup_py_unfold [of e "''''" p v] by (auto simp: newline_def)
next
  assume h: "fs e ''README'' = Some (File c) \<and>
    import_from (packages_at e) (sys_path_after_insert e)
      ''PolytomySolver'' ''__project__'' ''__version__'' = Inr pv"
  obtain p v where pv: "pv = (p, v)"
    by (cases pv)
  from h have "bind_README (fs e) = Inr c"
    by (simp add: bind_README_file)
  with h pv show "\<exists>a. setup_py e = Inr a \<and> long_description a = c @ [CHR 0x0A]"
    using setup_py_unfold [of e c p v] by (auto simp: newline_def)
qed

lemma import_checkout_without_README:
  "import_from (packages_at checkout_without_README) (sys_path_after_insert checkout_without_README)
     ''PolytomySolver'' ''__project__'' ''__version__'' = Inr (''profileNJ'', ''1.0'')"
  by (simp add: import_from_def sys_path_after_insert_def local_python_dir_def
      checkout_without_README_def dirname_def join_def slash_def local_module_def)

lemma import_checkout_with_README:
  "import_from (packages_at checkout_with_README) (sys_path_after_insert checkout_with_README)
     ''PolytomySolver'' ''__project__'' ''__version__'' = Inr (''profileNJ'', ''1.0'')"
  by (simp add: import_from_def sys_path_after_insert_def local_python_dir_def
      checkout_with_README_def checkout_without_README_def dirname_def join_def slash_def
      local_module_def)

theorem setup_py_long_description_witness:
  "fs checkout_without_README ''README'' = None
   \<and> fs checkout_with_README ''README'' = Some (File ''profileNJ readme'')
   \<and> bind_README (fs checkout_without_README) = Inr ''''
   \<and> (\<exists>a. setup_py checkout_without_README = Inr a \<and> long_description a = [CHR 0x0A])
   \<and> (\<exists>a. setup_py checkout_with_README = Inr a
          \<and> long_description a = ''profileNJ readme'' @ [CHR 0x0A])"
proof -
  have a: "fs checkout_without_README ''README'' = None"
    by (simp add: checkout_without_README_def)
  have b: "fs checkout_with_README ''README'' = Some (File ''profileNJ readme'')"
    by (simp add: checkout_with_README_def)
  show ?thesis
    using a b import_checkout_without_README import_checkout_with_README
      setup_py_long_description [of checkout_without_README "(''profileNJ'', ''1.0'')" "''''"]
      setup_py_long_description [of checkout_with_README "(''profileNJ'', ''1.0'')" "''profileNJ readme''"]
    by blast
qed

text \<open>
  The directory named on line 18 lies beside the script: for a script started as
  \<^verbatim>\<open>setup.py\<close> it is \<^verbatim>\<open>python\<close> (resolved against the working directory), and for a
  script started as \<^verbatim>\<open>d/setup.py\<close> it is \<^verbatim>\<open>d/python\<close> (with \<open>d\<close> empty: \<^verbatim>\<open>/python\<close> beside
  \<^verbatim>\<open>/setup.py\<close>).
\<close>

lemma dirname_no_slash: "slash \<notin> set f \<Longrightarrow> dirname f = []"
proof -
  assume "slash \<notin> set f"
  then have "dropWhile (\<lambda>c. c \<noteq> slash) (rev f) = []"
    by auto
  then show ?thesis
    by (simp add: dirname_def)
qed

lemma dirname_head:
  assumes "slash \<notin> set f"
  shows "rev (dropWhile (\<lambda>c. c \<noteq> slash) (rev (d @ [slash] @ f))) = d @ [slash]"
proof -
  have "dropWhile (\<lambda>c. c \<noteq> slash) (rev f @ slash # rev d) = slash # rev d"
    using assms by (simp add: dropWhile_append)
  then show ?thesis
    by simp
qed

lemma dirname_under_root:
  assumes "slash \<notin> set f"
  shows "dirname ([slash] @ f) = [slash]"
  using dirname_head [OF assms, of "[]"] by (simp add: dirname_def)

lemma dirname_under_directory:
  assumes "d \<noteq> []" and "last d \<noteq> slash" and "slash \<notin> set f"
  shows "dirname (d @ [slash] @ f) = d"
proof -
  have head: "rev (dropWhile (\<lambda>c. c \<noteq> slash) (rev (d @ [slash] @ f))) = d @ [slash]"
    using assms(3) by (rule dirname_head)
  have "last d \<in> set d"
    using assms(1) by simp
  then have nonslash: "filter (\<lambda>c. c \<noteq> slash) (d @ [slash]) \<noteq> []"
    using assms(2) by (auto simp: filter_empty_conv)
  have "hd (rev d) \<noteq> slash"
    using assms(1,2) by (simp add: hd_rev)
  then have "dropWhile (\<lambda>c. c = slash) (rev d) = rev d"
    using assms(1) by (cases "rev d") auto
  then have "rstrip_slash (d @ [slash]) = d"
    by (simp add: rstrip_slash_def)
  with head nonslash show ?thesis
    by (simp add: dirname_def Let_def)
qed

lemma python_dir_beside_script:
  assumes "slash \<notin> set f"
  shows "join (dirname f) ''python'' = ''python''"
    and "d = [] \<or> last d \<noteq> slash \<Longrightarrow>
           join (dirname (d @ [slash] @ f)) ''python'' = d @ [slash] @ ''python''"
proof -
  have rel: "hd ''python'' \<noteq> slash"
    by (simp add: slash_def)
  show "join (dirname f) ''python'' = ''python''"
    using rel assms by (simp add: dirname_no_slash join_def)
  show "join (dirname (d @ [slash] @ f)) ''python'' = d @ [slash] @ ''python''"
    if "d = [] \<or> last d \<noteq> slash"
  proof (cases "d = []")
    case True
    then show ?thesis
      using rel dirname_under_root [OF assms] by (simp add: join_def)
  next
    case False
    with that have "dirname (d @ [slash] @ f) = d"
      using assms by (simp add: dirname_under_directory del: append.simps)
    with False that show ?thesis
      using rel by (simp add: join_def)
  qed
qed

lemma find_module_first:
  "pk d n = Some m \<Longrightarrow> find_module pk (d # ds) n = Some m"
  by simp

text \<open>
  C10.  Let the script be started under the name \<open>f\<close> in the working directory, or as
  \<open>d/f\<close>, and let \<open>beside\<close> be the directory \<^verbatim>\<open>python\<close> that lies beside it: \<^verbatim>\<open>python\<close> in the first
  case, \<^verbatim>\<open>d/python\<close> in the second.  The import on line 19 runs with the resolved path of
  \<open>beside\<close> at position 0 of \<^verbatim>\<open>sys.path\<close>, the former entries following it.  When that
  directory holds the package \<^verbatim>\<open>PolytomySolver\<close>, the import finds this package whatever
  the later directories of \<^verbatim>\<open>sys.path\<close> hold, and the \<^verbatim>\<open>name\<close> and \<^verbatim>\<open>version\<close> passed to
  \<^verbatim>\<open>setuptools.setup\<close> are its \<^verbatim>\<open>__project__\<close> and \<^verbatim>\<open>__version__\<close>.
\<close>

theorem setup_py_local_package:
  assumes "slash \<notin> set f"
    and "script_file e = f \<and> beside = ''python''
         \<or> script_file e = d @ [slash] @ f \<and> (d = [] \<or> last d \<noteq> slash)
             \<and> beside = d @ [slash] @ ''python''"
    and "packages_at e (realpath e beside) ''PolytomySolver'' = Some m"
    and "m ''__project__'' = Some p"
    and "m ''__version__'' = Some v"
    and "fs e ''README'' \<noteq> Some Directory"
  shows "sys_path_after_insert e = realpath e beside # sys_path e
       \<and> find_module (packages_at e) (sys_path_after_insert e) ''PolytomySolver'' = Some m
       \<and> (\<exists>a. setup_py e = Inr a \<and> name a = p \<and> version a = v)"
proof -
  from assms(2) have "join (dirname (script_file e)) ''python'' = beside"
  proof
    assume "script_file e = f \<and> beside = ''python''"
    then show ?thesis
      using python_dir_beside_script(1) [OF assms(1)] by simp
  next
    assume "script_file e = d @ [slash] @ f \<and> (d = [] \<or> last d \<noteq> slash)
      \<and> beside = d @ [slash] @ ''python''"
    then show ?thesis
      using python_dir_beside_script(2) [OF assms(1), of d] by simp
  qed
  then have path: "sys_path_after_insert e = realpath e beside # sys_path e"
    by (simp add: sys_path_after_insert_def local_python_dir_def)
  have found: "find_module (packages_at e) (sys_path_after_insert e) ''PolytomySolver'' = Some m"
    unfolding path using assms(3) by (rule find_module_first)
  then have imp: "import_from (packages_at e) (sys_path_after_insert e)
      ''PolytomySolver'' ''__project__'' ''__version__'' = Inr (p, v)"
    using assms(4,5) by (simp add: import_from_def)
  obtain r where "bind_README (fs e) = Inr r"
  proof (cases "fs e ''README''")
    case None
    then show ?thesis
      using that bind_README_absent by blast
  next
    case (Some x)
    with assms(6) obtain c where "fs e ''README'' = Some (File c)"
      by (cases x) auto
    then show ?thesis
      using that bind_README_file by blast
  qed
  then have "\<exists>a. setup_py e = Inr a \<and> name a = p \<and> version a = v"
    using imp setup_py_unfold [of e r p v] by blast
  with path found show ?thesis
    by blast
qed

theorem setup_py_local_package_witness:
  "sys_path_after_insert checkout_without_README
       = [''/home/user/profileNJ/python'', ''/usr/lib/python2.7/site-packages'']
   \<and> packages_at checkout_without_README ''/usr/lib/python2.7/site-packages'' ''PolytomySolver''
       = Some installed_module
   \<and> (\<exists>a. setup_py checkout_without_README = Inr a \<and> name a = ''profileNJ'' \<and> version a = ''1.0'')
   \<and> script_file started_from_parent = ''profileNJ'' @ [slash] @ ''setup.py''
   \<and> sys_path_after_insert started_from_parent
       = [''/home/user/profileNJ/python'', ''/usr/lib/python2.7/site-packages'']
   \<and> packages_at started_from_parent ''/home/user/python'' ''PolytomySolver'' = Some installed_module
   \<and> (\<exists>a. setup_py started_from_parent = Inr a \<and> name a = ''profileNJ'' \<and> version a = ''1.0'')"
proof -
  have f: "slash \<notin> set ''setup.py''"
    by (simp add: slash_def)
  have b: "local_module ''__project__'' = Some ''profileNJ''"
    by (simp add: local_module_def)
  have c: "local_module ''__version__'' = Some ''1.0''"
    by (simp add: local_module_def)
  have s1: "script_file checkout_without_README = ''setup.py'' \<and> ''python'' = ''python''
      \<or> script_file checkout_without_README = [] @ [slash] @ ''setup.py''
          \<and> ([] = [] \<or> last [] \<noteq> slash) \<and> ''python'' = [] @ [slash] @ ''python''"
    by (simp add: checkout_without_README_def)
  have a1: "packages_at checkout_without_README (realpath checkout_without_README ''python'')
      ''PolytomySolver'' = Some local_module"
    by (simp add: checkout_without_README_def)
  have d1: "fs checkout_without_README ''README'' \<noteq> Some Directory"
    by (simp add: checkout_without_README_def)
  have e1: "packages_at checkout_without_README ''/usr/lib/python2.7/site-packages'' ''PolytomySolver''
       = Some installed_module"
    by (simp add: checkout_without_README_def)
  have r1: "realpath checkout_without_README ''python'' # sys_path checkout_without_README
       = [''/home/user/profileNJ/python'', ''/usr/lib/python2.7/site-packages'']"
    by (simp add: checkout_without_README_def)
  have s2: "script_file started_from_parent = ''setup.py''
          \<and> ''profileNJ'' @ [slash] @ ''python'' = ''python''
      \<or> script_file started_from_parent = ''profileNJ'' @ [slash] @ ''setup.py''
          \<and> (''profileNJ'' = [] \<or> last ''profileNJ'' \<noteq> slash)
          \<and> ''profileNJ'' @ [slash] @ ''python'' = ''profileNJ'' @ [slash] @ ''python''"
    by (simp add: started_from_parent_def slash_def)
  have a2: "packages_at started_from_parent
      (realpath started_from_parent (''profileNJ'' @ [slash] @ ''python''))
      ''PolytomySolver'' = Some local_module"
    by (simp add: started_from_parent_def slash_def)
  have d2: "fs started_from_parent ''README'' \<noteq> Some Directory"
    by (simp add: started_from_parent_def)
  have e2: "packages_at started_from_parent ''/home/user/python'' ''PolytomySolver''
       = Some installed_module"
    by (simp add: started_from_parent_def)
  have r2: "realpath started_from_parent (''profileNJ'' @ [slash] @ ''python'')
         # sys_path started_from_parent
       = [''/home/user/profileNJ/python'', ''/usr/lib/python2.7/site-packages'']"
    by (simp add: started_from_parent_def slash_def)
  have n2: "script_file started_from_parent = ''profileNJ'' @ [slash] @ ''setup.py''"
    by (simp add: started_from_parent_def slash_def)
  from setup_py_local_package [OF f s1 a1 b c d1] r1 e1
    setup_py_local_package [OF f s2 a2 b c d2] r2 e2 n2
  show ?thesis
    by simp
qed

section \<open>Properties of the LCA mapper\<close>

subsection \<open>The lowest common ancestor\<close>

text \<open>
  Lifting the deeper of two positions, or both positions of equal depth that differ,
  does not change their longest common prefix; so the depth comparison computes the
  longest common prefix, the deepest position that lies above both.
\<close>

lemma lcp_butlast_longer:
  "length q < length p \<Longrightarrow> longest_common_prefix (butlast p) q = longest_common_prefix p q"
proof (induction p q rule: longest_common_prefix.induct)
  case (1 x xs y ys)
  then show ?case by (cases xs) auto
qed auto

lemma lcp_butlast_both:
  "length p = length q \<Longrightarrow> p \<noteq> q \<Longrightarrow>
     longest_common_prefix (butlast p) (butlast q) = longest_common_prefix p q"
proof (induction p q rule: longest_common_prefix.induct)
  case (1 x xs y ys)
  then show ?case by (cases xs; cases ys) auto
qed auto

lemma lcp_same: "longest_common_prefix p p = p"
  by (induction p) auto

lemma lcp_commute: "longest_common_prefix p q = longest_common_prefix q p"
  by (induction p q rule: longest_common_prefix.induct) auto

lemma lca_longest_common_prefix: "lca p q = longest_common_prefix p q"
proof (induction p q rule: lca.induct)
  case (1 p q)
  show ?case
  proof (cases "length q < length p")
    case True
    then show ?thesis
      using 1(1) lcp_butlast_longer [of q p] by (subst lca.simps) simp
  next
    case False
    note nlt = this
    show ?thesis
    proof (cases "length p < length q")
      case True
      then show ?thesis
        using nlt 1(2) lcp_butlast_longer [of p q] lcp_commute [of p q] lcp_commute [of p "butlast q"]
        by (subst lca.simps) simp
    next
      case False
      show ?thesis
      proof (cases "p = q")
        case True
        then show ?thesis by (subst lca.simps) (simp add: lcp_same)
      next
        case neq: False
        with nlt False have "length p = length q" by simp
        then show ?thesis
          using nlt False neq 1(3) lcp_butlast_both [of p q] by (subst lca.simps) simp
      qed
    qed
  qed
qed

lemma lca_prefix1: "prefix (lca p q) p"
  by (simp add: lca_longest_common_prefix longest_common_prefix_prefix1)

lemma lca_prefix2: "prefix (lca p q) q"
  by (simp add: lca_longest_common_prefix longest_common_prefix_prefix2)

lemma lca_greatest: "prefix a p \<Longrightarrow> prefix a q \<Longrightarrow> prefix a (lca p q)"
  by (simp add: lca_longest_common_prefix longest_common_prefix_max_prefix)

text \<open>The LCA of a list of positions lies above each of them and is the deepest such position.\<close>

lemma foldl_lca_prefix:
  "prefix (foldl lca a xs) a \<and> (\<forall>x\<in>set xs. prefix (foldl lca a xs) x)"
proof (induction xs arbitrary: a)
  case Nil
  show ?case by simp
next
  case (Cons x xs)
  have 1: "prefix (foldl lca (lca a x) xs) (lca a x)"
    and 2: "\<forall>y\<in>set xs. prefix (foldl lca (lca a x) xs) y"
    using Cons.IH [of "lca a x"] by auto
  from 1 have "prefix (foldl lca (lca a x) xs) a" "prefix (foldl lca (lca a x) xs) x"
    using lca_prefix1 [of a x] lca_prefix2 [of a x] prefix_order.trans by blast+
  with 2 show ?case by simp
qed

lemma foldl_lca_greatest:
  "prefix b a \<Longrightarrow> \<forall>x\<in>set xs. prefix b x \<Longrightarrow> prefix b (foldl lca a xs)"
  by (induction xs arbitrary: a) (auto simp: lca_greatest)

lemma lca_list_prefix: "x \<in> set xs \<Longrightarrow> prefix (lca_list xs) x"
  using foldl_lca_prefix by (cases xs) auto

lemma lca_list_greatest: "xs \<noteq> [] \<Longrightarrow> \<forall>x\<in>set xs. prefix b x \<Longrightarrow> prefix b (lca_list xs)"
  using foldl_lca_greatest by (cases xs) auto

subsection \<open>Positions, labels and leaves\<close>

lemma subtree_at_append:
  "subtree_at t (p @ q) = (case subtree_at t p of None \<Rightarrow> None | Some u \<Rightarrow> subtree_at u q)"
proof (induction p arbitrary: t)
  case Nil
  show ?case by simp
next
  case (Cons i p)
  then show ?case by (cases t) simp
qed

lemma is_node_prefix: "prefix p q \<Longrightarrow> is_node t q \<Longrightarrow> is_node t p"
  by (auto simp: prefix_def is_node_def subtree_at_append split: option.splits)

text \<open>
  The search for a label returns the position of a node that carries it, and fails
  exactly when no node of the tree carries it.
\<close>

lemma find_label_sound:
  "find_label s t = Some p \<Longrightarrow> \<exists>n. subtree_at t p = Some n \<and> label n = Some s"
  "find_label_children s i cs = Some p \<Longrightarrow>
     \<exists>j q n. p = (i + j) # q \<and> j < length cs \<and> subtree_at (cs ! j) q = Some n \<and> label n = Some s"
proof (induction s t and s i cs arbitrary: p and p rule: find_label_find_label_children.induct)
  case (1 s l cs)
  show ?case
  proof (cases "l = Some s")
    case True
    with 1(2) show ?thesis by simp
  next
    case False
    with 1(2) have "find_label_children s 0 cs = Some p" by simp
    from 1(1) [OF False this] show ?thesis by auto
  qed
next
  case (2 s i)
  then show ?case by simp
next
  case (3 s i c cs)
  show ?case
  proof (cases "find_label s c")
    case None
    with 3(3) have "find_label_children s (Suc i) cs = Some p" by simp
    from 3(2) [OF None this] obtain j q n where
      "p = (Suc i + j) # q" "j < length cs" "subtree_at (cs ! j) q = Some n" "label n = Some s"
      by blast
    then have "p = (i + Suc j) # q \<and> Suc j < length (c # cs)
        \<and> subtree_at ((c # cs) ! Suc j) q = Some n \<and> label n = Some s"
      by simp
    then show ?thesis by blast
  next
    case (Some q)
    with 3(3) have p: "p = i # q" by simp
    from 3(1) [OF Some] obtain n where "subtree_at c q = Some n" "label n = Some s" by blast
    with p have "p = (i + 0) # q \<and> 0 < length (c # cs)
        \<and> subtree_at ((c # cs) ! 0) q = Some n \<and> label n = Some s"
      by simp
    then show ?thesis by blast
  qed
qed

lemma find_label_None:
  "(find_label s t = None) = (Some s \<notin> set (labels_of t))"
  "(find_label_children s i cs = None) = (\<forall>c\<in>set cs. Some s \<notin> set (labels_of c))"
  by (induction s t and s i cs rule: find_label_find_label_children.induct)
    (auto split: option.splits)

lemma labels_of_nodes:
  "(x \<in> set (labels_of t)) = (\<exists>p n. subtree_at t p = Some n \<and> label n = x)"
proof (induction t arbitrary: x)
  case (Node l cs)
  show ?case
  proof
    assume "x \<in> set (labels_of (Node l cs))"
    then consider "x = l" | c where "c \<in> set cs" "x \<in> set (labels_of c)"
      by auto
    then show "\<exists>p n. subtree_at (Node l cs) p = Some n \<and> label n = x"
    proof cases
      case 1
      then have "subtree_at (Node l cs) [] = Some (Node l cs) \<and> label (Node l cs) = x" by simp
      then show ?thesis by blast
    next
      case 2
      with Node.IH obtain p n where pn: "subtree_at c p = Some n" "label n = x" by blast
      from 2(1) obtain i where "i < length cs" "cs ! i = c" by (auto simp: in_set_conv_nth)
      with pn have "subtree_at (Node l cs) (i # p) = Some n \<and> label n = x" by simp
      then show ?thesis by blast
    qed
  next
    assume "\<exists>p n. subtree_at (Node l cs) p = Some n \<and> label n = x"
    then obtain p n where pn: "subtree_at (Node l cs) p = Some n" "label n = x" by blast
    show "x \<in> set (labels_of (Node l cs))"
    proof (cases p)
      case Nil
      with pn show ?thesis by auto
    next
      case (Cons i q)
      with pn have i: "i < length cs" and "subtree_at (cs ! i) q = Some n"
        by (auto split: if_splits)
      with pn(2) Node.IH [of "cs ! i" x] have "x \<in> set (labels_of (cs ! i))" by auto
      with i show ?thesis by auto
    qed
  qed
qed

lemma leaf_image_None: "(leaf_image sp S l = None) = (\<not> has_match sp S l)"
  by (simp add: leaf_image_def has_match_def find_label_None split: option.splits)

text \<open>The pairs listed as leaves are the positions of the nodes without children, with their labels.\<close>

lemma leaves_from_positions:
  "((p, l) \<in> set (leaves_from here t)) = (\<exists>q. p = here @ q \<and> subtree_at t q = Some (Node l []))"
  "((p, l) \<in> set (leaves_of_children here i cs)) =
     (\<exists>j q. j < length cs \<and> p = here @ (i + j) # q \<and> subtree_at (cs ! j) q = Some (Node l []))"
proof (induction here t and here i cs arbitrary: p l and p l rule: leaves_from_leaves_of_children.induct)
  case (1 here l' cs)
  show ?case
  proof (cases "cs = []")
    case True
    have "(\<exists>q. p = here @ q \<and> subtree_at (Node l' []) q = Some (Node l [])) = (p = here \<and> l' = l)"
    proof
      assume "\<exists>q. p = here @ q \<and> subtree_at (Node l' []) q = Some (Node l [])"
      then obtain q where q: "p = here @ q" "subtree_at (Node l' []) q = Some (Node l [])" by blast
      then show "p = here \<and> l' = l" by (cases q) auto
    next
      assume "p = here \<and> l' = l"
      then have "p = here @ [] \<and> subtree_at (Node l' []) [] = Some (Node l [])" by simp
      then show "\<exists>q. p = here @ q \<and> subtree_at (Node l' []) q = Some (Node l [])" by blast
    qed
    with True show ?thesis by auto
  next
    case False
    have "(\<exists>q. p = here @ q \<and> subtree_at (Node l' cs) q = Some (Node l [])) =
          (\<exists>j q. j < length cs \<and> p = here @ (0 + j) # q \<and> subtree_at (cs ! j) q = Some (Node l []))"
    proof
      assume "\<exists>q. p = here @ q \<and> subtree_at (Node l' cs) q = Some (Node l [])"
      then obtain q where q: "p = here @ q" "subtree_at (Node l' cs) q = Some (Node l [])" by blast
      with False obtain j r where "q = j # r" by (cases q) auto
      with q show "\<exists>j q. j < length cs \<and> p = here @ (0 + j) # q \<and> subtree_at (cs ! j) q = Some (Node l [])"
        by (auto split: if_splits)
    next
      assume "\<exists>j q. j < length cs \<and> p = here @ (0 + j) # q \<and> subtree_at (cs ! j) q = Some (Node l [])"
      then obtain j q where "j < length cs" "p = here @ j # q" "subtree_at (cs ! j) q = Some (Node l [])"
        by auto
      then have "p = here @ (j # q) \<and> subtree_at (Node l' cs) (j # q) = Some (Node l [])" by simp
      then show "\<exists>q. p = here @ q \<and> subtree_at (Node l' cs) q = Some (Node l [])" by blast
    qed
    with False 1 [OF False] show ?thesis by simp
  qed
next
  case (2 here i)
  show ?case by simp
next
  case (3 here i c cs)
  have "(\<exists>j q. j < length (c # cs) \<and> p = here @ (i + j) # q \<and> subtree_at ((c # cs) ! j) q = Some (Node l []))
      = ((\<exists>q. p = (here @ [i]) @ q \<and> subtree_at c q = Some (Node l []))
         \<or> (\<exists>j q. j < length cs \<and> p = here @ (Suc i + j) # q \<and> subtree_at (cs ! j) q = Some (Node l [])))"
    (is "?L = (?A \<or> ?B)")
  proof
    assume ?L
    then obtain j q where jq: "j < length (c # cs)" "p = here @ (i + j) # q"
      "subtree_at ((c # cs) ! j) q = Some (Node l [])" by blast
    show "?A \<or> ?B"
    proof (cases j)
      case 0
      with jq have ?A by simp
      then show ?thesis ..
    next
      case (Suc k)
      with jq have "k < length cs \<and> p = here @ (Suc i + k) # q \<and> subtree_at (cs ! k) q = Some (Node l [])"
        by simp
      then have ?B by blast
      then show ?thesis ..
    qed
  next
    assume "?A \<or> ?B"
    then show ?L
    proof
      assume ?A
      then obtain q where "p = (here @ [i]) @ q" "subtree_at c q = Some (Node l [])" by blast
      then have "0 < length (c # cs) \<and> p = here @ (i + 0) # q \<and> subtree_at ((c # cs) ! 0) q = Some (Node l [])"
        by simp
      then show ?L by blast
    next
      assume ?B
      then obtain j q where "j < length cs" "p = here @ (Suc i + j) # q" "subtree_at (cs ! j) q = Some (Node l [])"
        by blast
      then have "Suc j < length (c # cs) \<and> p = here @ (i + Suc j) # q
          \<and> subtree_at ((c # cs) ! Suc j) q = Some (Node l [])"
        by simp
      then show ?L by blast
    qed
  qed
  with 3 show ?case by simp
qed

lemma leaves_positions:
  "((p, l) \<in> set (leaves t)) = (subtree_at t p = Some (Node l []))"
  by (simp add: leaves_def leaves_from_positions(1))

subsection \<open>The result of the pass\<close>

lemma find_append:
  "List.find P (xs @ ys) = (case List.find P xs of None \<Rightarrow> List.find P ys | Some x \<Rightarrow> Some x)"
  by (induction xs) auto

text \<open>
  The pass fails at the first leaf, in its order, whose species label has no match, and
  succeeds when there is no such leaf.
\<close>

lemma map_node_result:
  "(case List.find (\<lambda>pl. \<not> has_match sp S (snd pl)) (leaves_from here t) of
      Some pl \<Rightarrow> map_node sp S here t = Inl (MappingError (fst pl) (snd pl))
    | None \<Rightarrow> (\<exists>m. map_node sp S here t = Inr m))"
  "(case List.find (\<lambda>pl. \<not> has_match sp S (snd pl)) (leaves_of_children here i cs) of
      Some pl \<Rightarrow> map_children sp S here i cs = Inl (MappingError (fst pl) (snd pl))
    | None \<Rightarrow> (\<exists>ms. map_children sp S here i cs = Inr ms))"
proof (induction sp S here t and sp S here i cs rule: map_node_map_children.induct)
  case (1 sp S here l cs)
  show ?case
  proof (cases "cs = []")
    case True
    then show ?thesis
      using leaf_image_None [of sp S l] by (auto split: option.splits)
  next
    case False
    with 1 [OF False] show ?thesis
      by (auto split: option.splits sum.splits)
  qed
next
  case (2 sp S here i)
  show ?case by simp
next
  case (3 sp S here i c cs)
  show ?case
  proof (cases "map_node sp S (here @ [i]) c")
    case (Inl e)
    with 3(1) show ?thesis
      by (auto simp: find_append split: option.splits)
  next
    case (Inr m)
    with 3(1) 3(2) [OF Inr] show ?thesis
      by (auto simp: find_append split: option.splits sum.splits)
  qed
qed

text \<open>
  A successful pass maps every child by the same pass; the cases of a successful result
  at one node.
\<close>

lemma map_children_all2:
  "map_children sp S here i cs = Inr ms \<Longrightarrow>
     list_all2 (\<lambda>c m. \<exists>h. map_node sp S h c = Inr m) cs ms"
proof (induction cs arbitrary: i ms)
  case Nil
  then show ?case by simp
next
  case (Cons c cs)
  from Cons.prems obtain m ms' where m: "map_node sp S (here @ [i]) c = Inr m"
    and ms': "map_children sp S here (Suc i) cs = Inr ms'" and ms: "ms = m # ms'"
    by (auto split: sum.splits)
  from Cons.IH [OF ms'] m ms show ?case by auto
qed

lemma map_node_cases:
  assumes "map_node sp S here (Node l cs) = Inr m"
  obtains (leaf) s where "cs = []" "leaf_image sp S l = Some s" "m = Img s []"
  | (internal) ms where "cs \<noteq> []" "m = Img (lca_list (map image ms)) ms"
      "list_all2 (\<lambda>c m. \<exists>h. map_node sp S h c = Inr m) cs ms"
proof (cases "cs = []")
  case True
  with assms obtain s where "leaf_image sp S l = Some s" "m = Img s []"
    by (auto split: option.splits)
  with True show ?thesis by (rule leaf)
next
  case False
  with assms obtain ms where ms: "map_children sp S here 0 cs = Inr ms"
    and m: "m = Img (lca_list (map image ms)) ms"
    by (auto split: sum.splits)
  from False m map_children_all2 [OF ms] show ?thesis by (rule internal)
qed

lemma map_node_monotone: "map_node sp S here t = Inr m \<Longrightarrow> monotone m"
proof (induction t arbitrary: here m)
  case (Node l cs)
  from Node.prems show ?case
  proof (cases rule: map_node_cases)
    case (leaf s)
    then show ?thesis by simp
  next
    case (internal ms)
    have "prefix (lca_list (map image ms)) (image x) \<and> monotone x" if "x \<in> set ms" for x
    proof -
      from that obtain j where j: "j < length ms" "ms ! j = x"
        by (auto simp: in_set_conv_nth)
      with internal(3) have "cs ! j \<in> set cs" and "\<exists>h. map_node sp S h (cs ! j) = Inr x"
        by (auto simp: list_all2_conv_all_nth)
      with Node.IH have "monotone x" by blast
      moreover have "prefix (lca_list (map image ms)) (image x)"
        using that by (intro lca_list_prefix) simp
      ultimately show ?thesis by simp
    qed
    with internal(2) show ?thesis by (simp add: list_all_iff)
  qed
qed

text \<open>Every image is a node of the species tree, and the mapping has the shape of the gene tree.\<close>

lemma leaf_image_is_node: "leaf_image sp S l = Some s \<Longrightarrow> is_node S s"
  using find_label_sound(1) [of _ S s]
  by (auto simp: leaf_image_def is_node_def split: option.splits)

lemma map_node_images_valid:
  "map_node sp S here t = Inr m \<Longrightarrow> image_at m p = Some s \<Longrightarrow> is_node S s"
proof (induction t arbitrary: here m p s)
  case (Node l cs)
  from Node.prems(1) show ?case
  proof (cases rule: map_node_cases)
    case (leaf s')
    with Node.prems(2) have "s = s'" by (cases p) auto
    with leaf show ?thesis by (simp add: leaf_image_is_node)
  next
    case (internal ms)
    from internal(1,3) have len: "length ms = length cs" and ne: "ms \<noteq> []"
      by (auto simp: list_all2_conv_all_nth)
    have child: "is_node S s'" if "j < length ms" "image_at (ms ! j) q = Some s'" for j q s'
    proof -
      from that(1) internal(3) have "cs ! j \<in> set cs" and "\<exists>h. map_node sp S h (cs ! j) = Inr (ms ! j)"
        by (auto simp: list_all2_conv_all_nth)
      with Node.IH that(2) show ?thesis by blast
    qed
    show ?thesis
    proof (cases p)
      case Nil
      with Node.prems(2) internal(2) have s: "s = lca_list (map image ms)" by simp
      from ne have "image (ms ! 0) \<in> set (map image ms)" by (cases ms) auto
      then have "prefix s (image (ms ! 0))" unfolding s by (rule lca_list_prefix)
      moreover have "image_at (ms ! 0) [] = Some (image (ms ! 0))" by (cases "ms ! 0") simp
      with ne have "is_node S (image (ms ! 0))" by (intro child [of 0 "[]"]) auto
      ultimately show ?thesis by (rule is_node_prefix)
    next
      case (Cons j q)
      with Node.prems(2) internal(2) have "j < length ms" "image_at (ms ! j) q = Some s"
        by (auto split: if_splits)
      then show ?thesis by (rule child)
    qed
  qed
qed

lemma map_node_shape:
  "map_node sp S here t = Inr m \<Longrightarrow> (image_at m p = None) = (subtree_at t p = None)"
proof (induction t arbitrary: here m p)
  case (Node l cs)
  from Node.prems(1) show ?case
  proof (cases rule: map_node_cases)
    case (leaf s')
    then show ?thesis by (cases p) auto
  next
    case (internal ms)
    from internal(3) have len: "length ms = length cs"
      by (auto simp: list_all2_conv_all_nth)
    show ?thesis
    proof (cases p)
      case Nil
      with internal(2) show ?thesis by simp
    next
      case (Cons j q)
      show ?thesis
      proof (cases "j < length cs")
        case True
        with internal(3) have "cs ! j \<in> set cs" and "\<exists>h. map_node sp S h (cs ! j) = Inr (ms ! j)"
          by (auto simp: list_all2_conv_all_nth)
        with Node.IH have "(image_at (ms ! j) q = None) = (subtree_at (cs ! j) q = None)" by blast
        with True len Cons internal(2) show ?thesis by simp
      next
        case False
        with len Cons internal(2) show ?thesis by simp
      qed
    qed
  qed
qed

text \<open>From a node and its children to a node and all its descendants.\<close>

lemma monotone_child:
  "monotone (Img s ms) \<Longrightarrow> i < length ms \<Longrightarrow> prefix s (image (ms ! i)) \<and> monotone (ms ! i)"
  by (simp add: list_all_length)

lemma monotone_root: "monotone m \<Longrightarrow> image_at m q = Some s \<Longrightarrow> prefix (image m) s"
proof (induction q arbitrary: m)
  case Nil
  then show ?case by (cases m) simp
next
  case (Cons i q)
  obtain r ms where m: "m = Img r ms" by (cases m)
  with Cons.prems(2) have i: "i < length ms" and at: "image_at (ms ! i) q = Some s"
    by (auto split: if_splits)
  from Cons.prems(1) m i have "prefix r (image (ms ! i))" "monotone (ms ! i)"
    using monotone_child by blast+
  with Cons.IH [OF _ at] m show ?case
    using prefix_order.trans by auto
qed

lemma monotone_ancestor:
  "monotone m \<Longrightarrow> image_at m (a @ c) = Some ib \<Longrightarrow> \<exists>ia. image_at m a = Some ia \<and> prefix ia ib"
proof (induction a arbitrary: m)
  case Nil
  then have "prefix (image m) ib" using monotone_root by simp
  moreover have "image_at m [] = Some (image m)" by (cases m) simp
  ultimately show ?case by simp
next
  case (Cons i a)
  obtain r ms where m: "m = Img r ms" by (cases m)
  with Cons.prems(2) have i: "i < length ms" and at: "image_at (ms ! i) (a @ c) = Some ib"
    by (auto split: if_splits)
  from Cons.prems(1) m i have "monotone (ms ! i)"
    using monotone_child by blast
  from Cons.IH [OF this at] m i show ?case by simp
qed

text \<open>
  The image of an internal node is the lowest common ancestor of the images of its
  children: it lies above each of them, and every species node that lies above all of
  them lies above it.
\<close>

lemma internal_image_is_lca:
  assumes "map_node sp S here (Node l cs) = Inr m" and "cs \<noteq> []"
  shows "(\<forall>c\<in>set (below m). prefix (image m) (image c))
       \<and> (\<forall>s. (\<forall>c\<in>set (below m). prefix s (image c)) \<longrightarrow> prefix s (image m))"
  using assms(1)
proof (cases rule: map_node_cases)
  case (leaf s)
  with assms(2) show ?thesis by simp
next
  case (internal ms)
  from internal(1,3) have "map image ms \<noteq> []"
    by (auto simp: list_all2_conv_all_nth)
  with internal(2) show ?thesis
    using lca_list_prefix [of _ "map image ms"] lca_list_greatest [of "map image ms"]
    by auto
qed

text \<open>
  The step that maps one new internal node over subtrees that are mapped already keeps
  the invariant.
\<close>

lemma monotone_new_internal:
  "list_all monotone ms \<Longrightarrow> monotone (Img (lca_list (map image ms)) ms)"
  using lca_list_prefix [of _ "map image ms"] by (auto simp: list_all_iff)

subsection \<open>The mapping after splices\<close>

text \<open>
  A successful pass does not depend on the position at which it starts (the position
  is only reported in errors), so a node over children that are mapped is mapped to
  the LCA of their images.
\<close>

lemma map_children_intro:
  "list_all2 (\<lambda>c m. \<forall>h. map_node sp S h c = Inr m) cs ms \<Longrightarrow>
     map_children sp S here i cs = Inr ms"
proof (induction cs arbitrary: i ms)
  case Nil
  then show ?case by simp
next
  case (Cons c cs)
  from Cons.prems obtain m ms' where ms: "ms = m # ms'"
    and m: "\<forall>h. map_node sp S h c = Inr m"
    and rest: "list_all2 (\<lambda>c m. \<forall>h. map_node sp S h c = Inr m) cs ms'"
    by (auto simp: list_all2_Cons1)
  from Cons.IH [OF rest, of "Suc i"] m ms show ?case by simp
qed

lemma map_node_position_free:
  "map_node sp S h t = Inr m \<Longrightarrow> map_node sp S h' t = Inr m"
proof (induction t arbitrary: h h' m)
  case (Node l cs)
  from Node.prems show ?case
  proof (cases rule: map_node_cases)
    case (leaf s)
    then show ?thesis by simp
  next
    case (internal ms)
    have "list_all2 (\<lambda>c m. \<forall>h. map_node sp S h c = Inr m) cs ms"
    proof (rule list_all2_all_nthI)
      from internal(3) show "length cs = length ms"
        by (rule list_all2_lengthD)
    next
      fix j
      assume j: "j < length cs"
      with internal(3) obtain h0 where "map_node sp S h0 (cs ! j) = Inr (ms ! j)"
        by (auto simp: list_all2_conv_all_nth)
      moreover from j have "cs ! j \<in> set cs"
        by simp
      ultimately show "\<forall>h. map_node sp S h (cs ! j) = Inr (ms ! j)"
        using Node.IH by blast
    qed
    then have "map_children sp S h' 0 cs = Inr ms"
      by (rule map_children_intro)
    with internal(1,2) show ?thesis by simp
  qed
qed

lemma map_node_internal_intro:
  assumes "cs \<noteq> []"
    and "list_all2 (\<lambda>c m. \<exists>h. map_node sp S h c = Inr m) cs ms"
  shows "map_node sp S h (Node l cs) = Inr (Img (lca_list (map image ms)) ms)"
proof -
  from assms(2) have "list_all2 (\<lambda>c m. \<forall>h. map_node sp S h c = Inr m) cs ms"
    by (rule list_all2_mono) (blast intro: map_node_position_free)
  then have "map_children sp S h 0 cs = Inr ms"
    by (rule map_children_intro)
  with assms(1) show ?thesis by simp
qed

lemma refine_map_is_map_node:
  assumes "list_all2 (\<lambda>c m. \<exists>h. map_node sp S h c = Inr m) cs ms"
    and "\<forall>i\<in>set (children_of r). i < length cs"
  shows "map_node sp S h (refine_tree cs r) = Inr (refine_map ms r)"
  using assms(2)
proof (induction r arbitrary: h)
  case (Child i)
  then have "i < length cs" by simp
  with assms(1) obtain h' where "map_node sp S h' (cs ! i) = Inr (ms ! i)"
    by (auto simp: list_all2_conv_all_nth)
  then have "map_node sp S h (cs ! i) = Inr (ms ! i)"
    by (rule map_node_position_free)
  then show ?case
    by simp
next
  case (Join a b)
  from Join.prems have ra: "\<forall>i\<in>set (children_of a). i < length cs"
    and rb: "\<forall>i\<in>set (children_of b). i < length cs"
    by simp_all
  have a: "map_node sp S (h @ [0]) (refine_tree cs a) = Inr (refine_map ms a)"
    using ra by (rule Join.IH(1))
  have b: "map_node sp S (h @ [Suc 0]) (refine_tree cs b) = Inr (refine_map ms b)"
    using rb by (rule Join.IH(2))
  from a b show ?case by (simp add: Let_def)
qed

lemma is_refinement_in_range:
  "is_refinement k r \<Longrightarrow> \<forall>i\<in>set (children_of r). i < k"
proof -
  assume "is_refinement k r"
  then have "set (sort (children_of r)) = set [0..<k]"
    by (simp add: is_refinement_def)
  then show ?thesis by auto
qed

lemma splice_map_is_map_node:
  assumes "map_node sp S h t = Inr m"
    and "subtree_at t p = Some (Node l cs)"
    and "cs \<noteq> []"
    and "\<forall>i\<in>set (children_of r). i < length cs"
  shows "map_node sp S h (splice_tree t p r) = Inr (splice_map m p r)"
  using assms(1,2)
proof (induction p arbitrary: t m h)
  case Nil
  then have t: "t = Node l cs" by simp
  from Nil(1) [unfolded t] show ?case
  proof (cases rule: map_node_cases)
    case (leaf s)
    with assms(3) show ?thesis by simp
  next
    case (internal ms)
    with t assms(4) show ?thesis
      by (simp add: refine_map_is_map_node)
  qed
next
  case (Cons i q)
  obtain l' cs' where t: "t = Node l' cs'" by (cases t)
  with Cons.prems(2) have i: "i < length cs'" and sub: "subtree_at (cs' ! i) q = Some (Node l cs)"
    by (auto split: if_splits)
  from Cons.prems(1) [unfolded t] show ?case
  proof (cases rule: map_node_cases)
    case (leaf s)
    with i show ?thesis by simp
  next
    case (internal ms)
    from internal(3) i have len: "length ms = length cs'"
      and child: "\<exists>h. map_node sp S h (cs' ! i) = Inr (ms ! i)"
      by (auto simp: list_all2_conv_all_nth)
    from child obtain h' where "map_node sp S h' (cs' ! i) = Inr (ms ! i)" by blast
    from Cons.IH [OF this sub]
    have new: "\<exists>h. map_node sp S h (splice_tree (cs' ! i) q r) = Inr (splice_map (ms ! i) q r)"
      by blast
    have all: "list_all2 (\<lambda>c m. \<exists>h. map_node sp S h c = Inr m)
        (cs'[i := splice_tree (cs' ! i) q r]) (ms[i := splice_map (ms ! i) q r])"
      using internal(3) new by (rule list_all2_update_cong)
    from internal(1) have "cs'[i := splice_tree (cs' ! i) q r] \<noteq> []" by simp
    from map_node_internal_intro [OF this all, of h l'] t internal(2) show ?thesis
      by (simp add: Let_def)
  qed
qed

lemma splice_keeps_mapping:
  assumes "map_node sp S h G = Inr m" and "splice (G, m) step = Inr (G', m')"
  shows "map_node sp S h G' = Inr m'"
proof -
  obtain p r where step: "step = (p, r)" by (cases step)
  from assms(2) step obtain n where n: "subtree_at G p = Some n" "2 < length (children n)"
    "is_refinement (length (children n)) r"
    and res: "G' = splice_tree G p r" "m' = splice_map m p r"
    by (auto simp: splice_def split: option.splits if_splits)
  obtain l cs where "n = Node l cs" by (cases n)
  with n have "subtree_at G p = Some (Node l cs)" "cs \<noteq> []" "\<forall>i\<in>set (children_of r). i < length cs"
    using is_refinement_in_range by auto
  with assms(1) res show ?thesis
    by (simp add: splice_map_is_map_node)
qed

lemma resolution_steps_keep_mapping:
  "map_node sp S h G = Inr m \<Longrightarrow> resolution_steps (G, m) steps = Inr (G', m') \<Longrightarrow>
     map_node sp S h G' = Inr m'"
proof (induction steps arbitrary: G m)
  case Nil
  then show ?case by simp
next
  case (Cons step steps)
  from Cons.prems(2) obtain G1 m1 where 1: "splice (G, m) step = Inr (G1, m1)"
    and 2: "resolution_steps (G1, m1) steps = Inr (G', m')"
    by (auto split: sum.splits)
  from splice_keeps_mapping [OF Cons.prems(1) 1] 2 show ?case
    by (rule Cons.IH)
qed

lemma resolution_mapping_is_lca_map:
  "resolution sp S G0 steps = Inr (G, m) \<Longrightarrow> lca_map sp S G = Inr m"
proof -
  assume "resolution sp S G0 steps = Inr (G, m)"
  then obtain m0 where "map_node sp S [] G0 = Inr m0" "resolution_steps (G0, m0) steps = Inr (G, m)"
    by (auto simp: resolution_def lca_map_def split: sum.splits)
  then have "map_node sp S [] G = Inr m"
    by (rule resolution_steps_keep_mapping)
  then show ?thesis
    by (simp add: lca_map_def)
qed

subsection \<open>Monotonicity of the mapping\<close>

text \<open>
  For the mapping that one pass of the mapper returns: the image of an ancestor lies
  above the image of a descendant, and both are nodes of the species tree.
\<close>

lemma lca_map_monotone:
  assumes "lca_map sp S G = Inr m"
    and "is_node G b"
    and "strict_prefix a b"
  shows "\<exists>ia ib. image_at m a = Some ia \<and> image_at m b = Some ib \<and> prefix ia ib
           \<and> is_node S ia \<and> is_node S ib"
proof -
  from assms(1) have map: "map_node sp S [] G = Inr m"
    by (simp add: lca_map_def)
  from assms(2) have "subtree_at G b \<noteq> None"
    by (simp add: is_node_def split: option.splits)
  with map_node_shape [OF map, of b] obtain ib where ib: "image_at m b = Some ib"
    by auto
  from assms(3) obtain c where "b = a @ c"
    by (auto simp: strict_prefix_def prefix_def)
  with ib monotone_ancestor [OF map_node_monotone [OF map], of a c ib]
  obtain ia where ia: "image_at m a = Some ia" "prefix ia ib"
    by blast
  from ia(1) ib have "is_node S ia" "is_node S ib"
    using map_node_images_valid [OF map] by blast+
  with ia ib show ?thesis
    by blast
qed

text \<open>A resolution without steps is at the mapping that the mapper returns.\<close>

lemma resolution_no_steps:
  "resolution sp S G [] = (case lca_map sp S G of Inl e \<Rightarrow> Inl e | Inr m \<Rightarrow> Inr (G, m))"
  by (simp add: resolution_def split: sum.splits)

text \<open>
  C7.  Take any point of a resolution: the gene tree \<open>G\<close> and the mapping \<open>m\<close> in use after
  any sequence of splices of refinements into the input gene tree \<open>G0\<close> (none, for the
  mapping that the LCA Mapper returns for the input), the mapping kept up to date with
  memoized images, fresh LCAs for the new nodes and propagation to the nodes above.
  Then \<open>m\<close> is the mapping that the LCA Mapper computes for \<open>G\<close>, and whenever the gene
  node \<open>a\<close> is an ancestor of the gene node \<open>b\<close>, both have images, the images are nodes of
  the species tree, and the image of \<open>a\<close> is an ancestor of, or equal to, the image of \<open>b\<close>.
\<close>

theorem resolution_mapping_monotone:
  assumes "resolution sp S G0 steps = Inr (G, m)"
    and "is_node G b"
    and "strict_prefix a b"
  shows "lca_map sp S G = Inr m
       \<and> (\<exists>ia ib. image_at m a = Some ia \<and> image_at m b = Some ib \<and> prefix ia ib
             \<and> is_node S ia \<and> is_node S ib)"
proof -
  from assms(1) have "lca_map sp S G = Inr m"
    by (rule resolution_mapping_is_lca_map)
  then show ?thesis
    using lca_map_monotone [OF _ assms(2,3)] by blast
qed

theorem resolution_mapping_monotone_witness:
  "resolution species_of_name species_ABCD gene_ABCD
       [([0], Join (Join (Child 0) (Child 1)) (Child 2))] =
     Inr (gene_resolved,
          Img [] [Img [] [Img [0] [Img [0, 0] [], Img [0, 1] []], Img [1, 0] []], Img [1, 1] []])
   \<and> is_node gene_resolved [0, 0, 1]
   \<and> strict_prefix [0, 0] [0, 0, 1::nat]
   \<and> lca_map species_of_name species_ABCD gene_resolved =
       Inr (Img [] [Img [] [Img [0] [Img [0, 0] [], Img [0, 1] []], Img [1, 0] []], Img [1, 1] []])
   \<and> (\<exists>ia ib.
        image_at (Img [] [Img [] [Img [0] [Img [0, 0] [], Img [0, 1] []], Img [1, 0] []], Img [1, 1] []])
          [0, 0] = Some ia
        \<and> image_at (Img [] [Img [] [Img [0] [Img [0, 0] [], Img [0, 1] []], Img [1, 0] []], Img [1, 1] []])
          [0, 0, 1] = Some ib
        \<and> prefix ia ib \<and> is_node species_ABCD ia \<and> is_node species_ABCD ib)
   \<and> resolution species_of_name species_ABCD gene_resolved [] =
       Inr (gene_resolved,
            Img [] [Img [] [Img [0] [Img [0, 0] [], Img [0, 1] []], Img [1, 0] []], Img [1, 1] []])"
proof -
  have a: "resolution species_of_name species_ABCD gene_ABCD
       [([0], Join (Join (Child 0) (Child 1)) (Child 2))] =
     Inr (gene_resolved,
          Img [] [Img [] [Img [0] [Img [0, 0] [], Img [0, 1] []], Img [1, 0] []], Img [1, 1] []])"
    by code_simp
  have b: "is_node gene_resolved [0, 0, 1]"
    by code_simp
  have c: "strict_prefix [0, 0] [0, 0, 1::nat]"
    by (simp add: strict_prefix_def)
  have d: "resolution species_of_name species_ABCD gene_resolved [] =
       Inr (gene_resolved,
            Img [] [Img [] [Img [0] [Img [0, 0] [], Img [0, 1] []], Img [1, 0] []], Img [1, 1] []])"
    by code_simp
  from a b c d resolution_mapping_monotone [OF a b c] show ?thesis
    by blast
qed

subsection \<open>Failure of the mapper\<close>

text \<open>
  The first gene leaf in the order of the pass whose species label has no match, if
  there is one, decides the result.
\<close>

lemma lca_map_first_unmatched:
  "(case List.find (\<lambda>pl. \<not> has_match sp S (snd pl)) (leaves G) of
      Some pl \<Rightarrow> lca_map sp S G = Inl (MappingError (fst pl) (snd pl))
    | None \<Rightarrow> (\<exists>m. lca_map sp S G = Inr m))"
  unfolding lca_map_def leaves_def by (rule map_node_result(1))

text \<open>
  C8.  The LCA Mapper fails if and only if some leaf of the gene tree has a species
  label without a matching node in the species tree; the only failure is a
  \<^verbatim>\<open>MappingError\<close>, and it names such a leaf by its position in the gene tree and its
  label.  (By \<open>leaves_positions\<close> the pairs of \<open>leaves G\<close> are the positions of the nodes of
  \<open>G\<close> without children, with their labels.)
\<close>

theorem lca_map_fails_iff_unmatched_leaf:
  "((\<exists>e. lca_map sp S G = Inl e) = (\<exists>pl\<in>set (leaves G). \<not> has_match sp S (snd pl)))
   \<and> (\<forall>e. lca_map sp S G = Inl e \<longrightarrow>
         (\<exists>pl\<in>set (leaves G). \<not> has_match sp S (snd pl) \<and> e = MappingError (fst pl) (snd pl)))"
proof (cases "List.find (\<lambda>pl. \<not> has_match sp S (snd pl)) (leaves G)")
  case None
  with lca_map_first_unmatched [of sp S G] obtain m where "lca_map sp S G = Inr m"
    by auto
  moreover from None have "\<not> (\<exists>pl\<in>set (leaves G). \<not> has_match sp S (snd pl))"
    by (auto simp: find_None_iff)
  ultimately show ?thesis
    by simp
next
  case (Some pl)
  with lca_map_first_unmatched [of sp S G]
  have err: "lca_map sp S G = Inl (MappingError (fst pl) (snd pl))"
    by simp
  from Some have "pl \<in> set (leaves G)" "\<not> has_match sp S (snd pl)"
    by (auto simp: find_Some_iff)
  with err show ?thesis
    by auto
qed

theorem lca_map_fails_iff_unmatched_leaf_witness:
  "([0, 1], Some ''E_1'') \<in> set (leaves gene_with_stranger)
   \<and> \<not> has_match species_of_name species_ABCD (Some ''E_1'')
   \<and> (\<exists>e. lca_map species_of_name species_ABCD gene_with_stranger = Inl e)
   \<and> lca_map species_of_name species_ABCD gene_with_stranger = Inl (MappingError [0, 1] (Some ''E_1''))
   \<and> list_all (\<lambda>pl. has_match species_of_name species_ABCD (snd pl)) (leaves gene_ABCD)
   \<and> \<not> (\<exists>e. lca_map species_of_name species_ABCD gene_ABCD = Inl e)"
proof -
  have a: "([0, 1], Some ''E_1'') \<in> set (leaves gene_with_stranger)"
    by code_simp
  have b: "\<not> has_match species_of_name species_ABCD (Some ''E_1'')"
    by code_simp
  from a b have "\<exists>pl\<in>set (leaves gene_with_stranger). \<not> has_match species_of_name species_ABCD (snd pl)"
    by force
  then have c: "\<exists>e. lca_map species_of_name species_ABCD gene_with_stranger = Inl e"
    using lca_map_fails_iff_unmatched_leaf [of species_of_name species_ABCD gene_with_stranger]
    by blast
  have d: "lca_map species_of_name species_ABCD gene_with_stranger = Inl (MappingError [0, 1] (Some ''E_1''))"
    by code_simp
  have e: "list_all (\<lambda>pl. has_match species_of_name species_ABCD (snd pl)) (leaves gene_ABCD)"
    by code_simp
  then have "\<not> (\<exists>pl\<in>set (leaves gene_ABCD). \<not> has_match species_of_name species_ABCD (snd pl))"
    by (simp add: list_all_iff)
  then have f: "\<not> (\<exists>e. lca_map species_of_name species_ABCD gene_ABCD = Inl e)"
    using lca_map_fails_iff_unmatched_leaf [of species_of_name species_ABCD gene_ABCD]
    by blast
  from a b c d e f show ?thesis
    by blast
qed

end
